theory Spec2Isabelle
  imports Complex_Main "HOL-Library.Sublist"
begin

section \<open>Go primitives\<close>

text \<open>
  The renderer is Go code. Its \<^verbatim>\<open>int\<close> values are row counts, page sizes and page numbers;
  they are modelled by \<^typ>\<open>int\<close>, so every statement below describes runs in which no
  intermediate result leaves the range of the machine type. The one place where the width is
  visible in the results is \<^verbatim>\<open>strconv.Atoi\<close>, which rejects numerals outside the 64-bit
  range; that check is part of the model.

  Go's \<^verbatim>\<open>/\<close> on integers truncates towards zero, unlike \<open>div\<close>.
\<close>

definition go_div :: "int \<Rightarrow> int \<Rightarrow> int" where
  "go_div a b = (if (a < 0) = (b < 0) then \<bar>a\<bar> div \<bar>b\<bar> else - (\<bar>a\<bar> div \<bar>b\<bar>))"

text \<open>
  The \<^verbatim>\<open>strings\<close> package. Every separator the renderer passes to \<^verbatim>\<open>Contains\<close>,
  \<^verbatim>\<open>TrimPrefix\<close>, \<^verbatim>\<open>Split\<close> and \<^verbatim>\<open>SplitN\<close> is a one-character string, so the
  separator is a \<^typ>\<open>char\<close> here. \<^verbatim>\<open>Split\<close> of the empty string is the list holding one
  empty string, as in Go. \<^verbatim>\<open>SplitN\<close> is only ever called with \<open>n = 2\<close>.
\<close>

definition strings_Contains :: "string \<Rightarrow> char \<Rightarrow> bool" where
  "strings_Contains s c = (c \<in> set s)"

definition strings_TrimPrefix :: "string \<Rightarrow> char \<Rightarrow> string" where
  "strings_TrimPrefix s c = (case s of [] \<Rightarrow> [] | x # r \<Rightarrow> if x = c then r else s)"

fun strings_Split :: "string \<Rightarrow> char \<Rightarrow> string list" where
  "strings_Split [] c = [[]]"
| "strings_Split (x # s) c =
     (if x = c then [] # strings_Split s c
      else (case strings_Split s c of [] \<Rightarrow> [[x]] | y # ys \<Rightarrow> (x # y) # ys))"

definition strings_SplitN2 :: "string \<Rightarrow> char \<Rightarrow> string list" where
  "strings_SplitN2 s c =
     (if c \<in> set s then [takeWhile (\<lambda>x. x \<noteq> c) s, drop 1 (dropWhile (\<lambda>x. x \<noteq> c) s)]
      else [s])"

fun strings_Join :: "string list \<Rightarrow> string \<Rightarrow> string" where
  "strings_Join [] sep = []"
| "strings_Join [x] sep = x"
| "strings_Join (x # y # ys) sep = x @ sep @ strings_Join (y # ys) sep"

text \<open>\<^verbatim>\<open>fmt.Sprintf("%d", i)\<close>: the decimal numeral of an integer.\<close>

fun digits :: "nat \<Rightarrow> string" where
  "digits n =
     (if n < 10 then [''0123456789'' ! n]
      else digits (n div 10) @ [''0123456789'' ! (n mod 10)])"

definition fmt_d :: "int \<Rightarrow> string" where
  "fmt_d i = (if i < 0 then CHR ''-'' # digits (nat (- i)) else digits (nat i))"

text \<open>
  \<^verbatim>\<open>strconv.Atoi\<close>: an optional sign, then one or more decimal digits, and the value must
  fit a 64-bit signed integer; \<open>None\<close> stands for a non-nil error.
\<close>

definition isDigit :: "char \<Rightarrow> bool" where
  "isDigit c = (c \<in> set ''0123456789'')"

definition digitVal :: "char \<Rightarrow> nat" where
  "digitVal c = length (takeWhile (\<lambda>d. d \<noteq> c) ''0123456789'')"

definition digitsVal :: "string \<Rightarrow> nat" where
  "digitsVal ds = foldl (\<lambda>acc c. 10 * acc + digitVal c) 0 ds"

definition strconv_Atoi :: "string \<Rightarrow> int option" where
  "strconv_Atoi s =
     (let neg = (case s of [] \<Rightarrow> False | c # _ \<Rightarrow> c = CHR ''-'');
          ds = (case s of [] \<Rightarrow> [] | c # r \<Rightarrow> if c = CHR ''-'' \<or> c = CHR ''+'' then r else s)
      in if ds = [] \<or> \<not> list_all isDigit ds then None
         else if neg then
           (if int (digitsVal ds) \<le> 2 ^ 63 then Some (- int (digitsVal ds)) else None)
         else
           (if int (digitsVal ds) < 2 ^ 63 then Some (int (digitsVal ds)) else None))"

section \<open>Configuration and pagination state\<close>

record Pagination =
  Enabled :: bool
  PageSize :: int
  CurrentPage :: int
  ShowControls :: bool
  ShowInfo :: bool
  ShowPageSizer :: bool
  PageSizeOptions :: "int list"
  BaseURL :: string
  QueryParam :: string
  PreserveQuery :: bool
  TotalCount :: int

record Sorting =
  Enabled :: bool
  SortBy :: string
  SortOrder :: string
  BaseURL :: string
  QueryParam :: string
  OrderParam :: string

record PaginationInfo =
  CurrentPage :: int
  TotalPages :: int
  TotalRows :: int
  PageSize :: int
  StartRow :: int
  EndRow :: int

text \<open>
  \<^verbatim>\<open>calculatePagination\<close>. The \<^verbatim>\<open>*Pagination\<close> argument may be nil, hence the option.
\<close>

definition calculatePagination :: "int \<Rightarrow> Pagination option \<Rightarrow> PaginationInfo" where
  "calculatePagination currentPageDataCount pagination =
     (let single = \<lparr>PaginationInfo.CurrentPage = 1, TotalPages = 1,
                     TotalRows = currentPageDataCount, PageSize = currentPageDataCount,
                     StartRow = 1, EndRow = currentPageDataCount\<rparr>
      in case pagination of
           None \<Rightarrow> single
         | Some p \<Rightarrow>
             if \<not> Pagination.Enabled p \<or> Pagination.PageSize p \<le> 0 then single
             else
               let totalRows = (if TotalCount p = 0 then currentPageDataCount else TotalCount p);
                   currentPage = (if Pagination.CurrentPage p < 1 then 1
                                  else Pagination.CurrentPage p);
                   totalPages = go_div (totalRows + Pagination.PageSize p - 1)
                                       (Pagination.PageSize p);
                   currentPage = (if currentPage > totalPages then totalPages else currentPage);
                   startRow = (currentPage - 1) * Pagination.PageSize p + 1;
                   endRow = currentPage * Pagination.PageSize p;
                   endRow = (if endRow > totalRows then totalRows else endRow)
               in \<lparr>PaginationInfo.CurrentPage = currentPage, TotalPages = totalPages,
                   TotalRows = totalRows, PageSize = Pagination.PageSize p,
                   StartRow = startRow, EndRow = endRow\<rparr>)"

text \<open>
  A page of a listing that matched no record: pagination is on, ten rows per page, page 1
  requested, and the storage layer reports a total of zero.
\<close>

definition emptyListing :: Pagination where
  "emptyListing =
     \<lparr>Pagination.Enabled = True, PageSize = 10, CurrentPage = 1, ShowControls = True,
      ShowInfo = True, ShowPageSizer = False, PageSizeOptions = [], BaseURL = ''/users'',
      QueryParam = ''page'', PreserveQuery = True, TotalCount = 0\<rparr>"

text \<open>The third page of 47 rows, ten per page.\<close>

definition thirdOfFive :: Pagination where
  "thirdOfFive =
     \<lparr>Pagination.Enabled = True, PageSize = 10, CurrentPage = 3, ShowControls = True,
      ShowInfo = True, ShowPageSizer = False, PageSizeOptions = [], BaseURL = ''/users'',
      QueryParam = ''page'', PreserveQuery = True, TotalCount = 47\<rparr>"

section \<open>Reading the query string\<close>

text \<open>
  \<^verbatim>\<open>ParsePageFromQuery\<close>. The loop over the \<open>&\<close>-separated parameters returns from inside
  at the first pair whose key is the page parameter and whose value is a positive numeral;
  when the loop runs out the function returns 1.
\<close>

fun pageLoop :: "string list \<Rightarrow> string \<Rightarrow> int" where
  "pageLoop [] paramName = 1"
| "pageLoop (param # params) paramName =
     (if strings_Contains param (CHR ''='') then
        (let parts = strings_SplitN2 param (CHR ''='') in
         if length parts = 2 \<and> parts ! 0 = paramName then
           (case strconv_Atoi (parts ! 1) of
              Some page \<Rightarrow> if page > 0 then page else pageLoop params paramName
            | None \<Rightarrow> pageLoop params paramName)
         else pageLoop params paramName)
      else pageLoop params paramName)"

definition ParsePageFromQuery :: "string \<Rightarrow> string \<Rightarrow> int" where
  "ParsePageFromQuery queryString paramName =
     (let paramName = (if paramName = [] then ''page'' else paramName)
      in if queryString = [] then 1
         else pageLoop (strings_Split (strings_TrimPrefix queryString (CHR ''?'')) (CHR ''&''))
                paramName)"

text \<open>
  \<^verbatim>\<open>ParseSortFromQuery\<close>. The loop carries the pair \<open>(sortBy, sortOrder)\<close>; one round of it
  is \<open>sortStep\<close>.
\<close>

definition sortStep :: "string \<Rightarrow> string \<Rightarrow> string \<times> string \<Rightarrow> string \<Rightarrow> string \<times> string" where
  "sortStep sortParam orderParam st param =
     (if strings_Contains param (CHR ''='') then
        (let parts = strings_SplitN2 param (CHR ''='') in
         if length parts = 2 then
           (if parts ! 0 = sortParam then (parts ! 1, snd st)
            else if parts ! 0 = orderParam then
              (if parts ! 1 = ''desc'' then (fst st, ''desc'') else st)
            else st)
         else st)
      else st)"

definition ParseSortFromQuery :: "string \<Rightarrow> string \<Rightarrow> string \<Rightarrow> string \<times> string" where
  "ParseSortFromQuery queryString sortParam orderParam =
     (let sortParam = (if sortParam = [] then ''sort_by'' else sortParam);
          orderParam = (if orderParam = [] then ''sort_order'' else orderParam)
      in if queryString = [] then ([], ''asc'')
         else foldl (sortStep sortParam orderParam) ([], ''asc'')
                (strings_Split (strings_TrimPrefix queryString (CHR ''?'')) (CHR ''&'')))"

text \<open>
  \<^verbatim>\<open>parseQueryParams\<close>. The result is a Go map, here a partial function from keys to
  values; one round of the loop over the pairs is \<open>paramStep\<close>.
\<close>

definition paramStep :: "(string \<rightharpoonup> string) \<Rightarrow> string \<Rightarrow> (string \<rightharpoonup> string)" where
  "paramStep params pair =
     (if strings_Contains pair (CHR ''='') then
        (let parts = strings_SplitN2 pair (CHR ''='') in
         if length parts = 2 then params(parts ! 0 \<mapsto> parts ! 1) else params)
      else params)"

definition parseQueryParams :: "string \<Rightarrow> (string \<rightharpoonup> string)" where
  "parseQueryParams urlOrQuery =
     (if urlOrQuery = [] then Map.empty
      else
        let queryString =
              (if strings_Contains urlOrQuery (CHR ''?'') then
                 (let parts = strings_Split urlOrQuery (CHR ''?'') in
                  if length parts > 1 then parts ! 1 else urlOrQuery)
               else urlOrQuery);
            queryString = strings_TrimPrefix queryString (CHR ''?'')
        in if queryString = [] then Map.empty
           else foldl paramStep Map.empty (strings_Split queryString (CHR ''&'')))"

text \<open>
  The codec as the specification words it: drop everything up to and including the first
  \<open>?\<close>, parse the whole remainder; split on \<open>&\<close>, each pair on its first \<open>=\<close>; pairs
  without \<open>=\<close> are dropped; the last occurrence of a key wins.
\<close>

definition afterFirst :: "char \<Rightarrow> string \<Rightarrow> string" where
  "afterFirst c s = drop 1 (dropWhile (\<lambda>x. x \<noteq> c) s)"

definition pairOf :: "string \<Rightarrow> string \<times> string" where
  "pairOf pair = (takeWhile (\<lambda>x. x \<noteq> CHR ''='') pair, afterFirst (CHR ''='') pair)"

definition parse_spec :: "string \<Rightarrow> (string \<rightharpoonup> string)" where
  "parse_spec urlOrQuery =
     (let remainder = (if CHR ''?'' \<in> set urlOrQuery then afterFirst (CHR ''?'') urlOrQuery
                       else urlOrQuery)
      in map_of (rev (map pairOf
           (filter (\<lambda>pair. CHR ''='' \<in> set pair) (strings_Split remainder (CHR ''&''))))))"

text \<open>
  Vocabulary for statements about these readers: the \<open>key=value\<close> pairs of a query
  string, and the values that count as a page number.
\<close>

definition querySegments :: "string \<Rightarrow> string list" where
  "querySegments queryString =
     filter (\<lambda>pair. CHR ''='' \<in> set pair)
       (strings_Split (strings_TrimPrefix queryString (CHR ''?'')) (CHR ''&''))"

definition positiveNumeral :: "string \<Rightarrow> bool" where
  "positiveNumeral v = (case strconv_Atoi v of None \<Rightarrow> False | Some n \<Rightarrow> 0 < n)"

definition keyValuePairs :: "string \<Rightarrow> (string \<times> string) list" where
  "keyValuePairs queryString =
     map pairOf (filter (\<lambda>pair. CHR ''='' \<in> set pair) (strings_Split queryString (CHR ''&'')))"

section \<open>Sort links\<close>

text \<open>
  \<^verbatim>\<open>generateSortLinks\<close>. The third argument is a Go map that the code ranges over once for
  every header. The order in which a Go map yields its entries is not fixed and may change
  from one loop to the next, so the model takes, for every loop, the list of entries as that
  loop meets them: \<open>currentQueryParams i\<close> is the list for the header at position \<open>i\<close>.
  Every statement holds for every choice of these lists. \<open>sortLink\<close> is one round of the loop
  over the headers.
\<close>

definition sortLink :: "Sorting \<Rightarrow> (string \<times> string) list \<Rightarrow> string \<Rightarrow> string" where
  "sortLink sorting currentQueryParams header =
     (let baseURL = Sorting.BaseURL sorting;
          sortParam = (if Sorting.QueryParam sorting = [] then ''sort_by''
                       else Sorting.QueryParam sorting);
          orderParam = (if OrderParam sorting = [] then ''sort_order'' else OrderParam sorting);
          sortOrder = (if SortBy sorting = header \<and> SortOrder sorting = ''asc'' then ''desc''
                       else ''asc'');
          params = [sortParam @ ''='' @ header, orderParam @ ''='' @ sortOrder]
                   @ map (\<lambda>(key, value). key @ ''='' @ value)
                       (filter (\<lambda>(key, value). key \<noteq> sortParam \<and> key \<noteq> orderParam
                                  \<and> key \<noteq> ''page'') currentQueryParams);
          queryString = strings_Join params ''&''
      in if baseURL = [] then ''?'' @ queryString
         else if strings_Contains baseURL (CHR ''?'') then baseURL @ ''&'' @ queryString
         else baseURL @ ''?'' @ queryString)"

definition generateSortLinks ::
    "string list \<Rightarrow> Sorting option \<Rightarrow> (nat \<Rightarrow> (string \<times> string) list) \<Rightarrow> string list" where
  "generateSortLinks headers sorting currentQueryParams =
     (case sorting of
        None \<Rightarrow> replicate (length headers) []
      | Some s \<Rightarrow>
          if \<not> Sorting.Enabled s then replicate (length headers) []
          else map (\<lambda>i. sortLink s (currentQueryParams i) (headers ! i)) [0 ..< length headers])"

text \<open>
  The part of \<^verbatim>\<open>RenderHTML\<close> that fills \<open>SortLinks\<close>, which the template indexes at the
  position of every header.
\<close>

definition RenderHTML_sortLinks ::
    "string list \<Rightarrow> Sorting option \<Rightarrow> (nat \<Rightarrow> (string \<times> string) list) \<Rightarrow> string list" where
  "RenderHTML_sortLinks headers sorting currentParams =
     (case sorting of
        None \<Rightarrow> replicate (length headers) []
      | Some s \<Rightarrow>
          if Sorting.Enabled s then generateSortLinks headers sorting currentParams
          else replicate (length headers) [])"

text \<open>
  How a generated URL begins, and how the preserved parameters follow the overridden ones.
\<close>

definition urlHead :: "string \<Rightarrow> string" where
  "urlHead baseURL =
     (if baseURL = [] then ''?''
      else if CHR ''?'' \<in> set baseURL then baseURL @ ''&''
      else baseURL @ ''?'')"

definition sortParamOf :: "Sorting \<Rightarrow> string" where
  "sortParamOf s = (if Sorting.QueryParam s = [] then ''sort_by'' else Sorting.QueryParam s)"

definition orderParamOf :: "Sorting \<Rightarrow> string" where
  "orderParamOf s = (if OrderParam s = [] then ''sort_order'' else OrderParam s)"

definition carried :: "string list \<Rightarrow> (string \<times> string) list \<Rightarrow> string" where
  "carried excluded kvs =
     concat (map (\<lambda>(key, value). ''&'' @ key @ ''='' @ value)
       (filter (\<lambda>(key, value). key \<notin> set excluded) kvs))"

definition usersByName :: Sorting where
  "usersByName =
     \<lparr>Sorting.Enabled = True, SortBy = ''name'', SortOrder = ''asc'', BaseURL = ''/users'',
      QueryParam = ''sort_by'', OrderParam = ''sort_order''\<rparr>"

text \<open>
  Following a sort link: the server receives the URL, reads the sort state from its query
  string (the text after the first \<open>?\<close>) with \<^verbatim>\<open>ParseSortFromQuery\<close> under the configured
  parameter names, and renders the next page from that state. \<open>clickColumn\<close> is one such
  round trip for the column at position \<open>i\<close>.
\<close>

definition followSortLink :: "Sorting \<Rightarrow> string \<Rightarrow> Sorting" where
  "followSortLink s link =
     (let parsed = ParseSortFromQuery (afterFirst (CHR ''?'') link)
                     (Sorting.QueryParam s) (OrderParam s)
      in s\<lparr>SortBy := fst parsed, SortOrder := snd parsed\<rparr>)"

definition clickColumn ::
    "Sorting \<Rightarrow> (nat \<Rightarrow> (string \<times> string) list) \<Rightarrow> string list \<Rightarrow> nat \<Rightarrow> Sorting" where
  "clickColumn s kvs headers i = followSortLink s (generateSortLinks headers (Some s) kvs ! i)"

text \<open>
  Links are built without any encoding, so they read back as written only when the pieces
  are free of the separators: parameter names without \<open>?\<close>, \<open>&\<close> and \<open>=\<close>, carried keys
  without \<open>&\<close> and \<open>=\<close>, carried values without \<open>&\<close>.
\<close>

definition plainName :: "string \<Rightarrow> bool" where
  "plainName n = list_all (\<lambda>c. c \<noteq> CHR ''?'' \<and> c \<noteq> CHR ''&'' \<and> c \<noteq> CHR ''='') n"

definition plainParams :: "(string \<times> string) list \<Rightarrow> bool" where
  "plainParams kvs =
     list_all (\<lambda>(key, value). CHR ''&'' \<notin> set key \<and> CHR ''='' \<notin> set key
                 \<and> CHR ''&'' \<notin> set value) kvs"

definition sortedByOddColumn :: Sorting where
  "sortedByOddColumn =
     \<lparr>Sorting.Enabled = True, SortBy = ''x&sort_order=desc'', SortOrder = ''asc'',
      BaseURL = ''/users'', QueryParam = ''sort_by'', OrderParam = ''sort_order''\<rparr>"

section \<open>Pagination controls\<close>

text \<open>
  \<^verbatim>\<open>generatePaginationHTML\<close>. \<open>generateURL\<close> is the closure of that name; it captures the base
  URL and the name of the page parameter, and ranges over the map of current query
  parameters once in every call. Its third argument is the list of entries as that call
  meets them.
\<close>

definition generateURL :: "string \<Rightarrow> string \<Rightarrow> (string \<times> string) list \<Rightarrow> int \<Rightarrow> string" where
  "generateURL baseURL queryParam currentQueryParams page =
     (let params = [queryParam @ ''='' @ fmt_d page]
                   @ map (\<lambda>(key, value). key @ ''='' @ value)
                       (filter (\<lambda>(key, value). key \<noteq> queryParam) currentQueryParams);
          queryString = strings_Join params ''&''
      in if baseURL = [] then ''?'' @ queryString
         else if strings_Contains baseURL (CHR ''?'') then baseURL @ ''&'' @ queryString
         else baseURL @ ''?'' @ queryString)"

text \<open>The first and the last page number shown: the variables \<open>start\<close> and \<open>end\<close>.\<close>

definition pageWindow :: "PaginationInfo \<Rightarrow> int \<times> int" where
  "pageWindow paginationInfo =
     (if TotalPages paginationInfo > 5 then
        (let start = PaginationInfo.CurrentPage paginationInfo - 2;
             start = (if start < 1 then 1 else start);
             end' = start + 4
         in if end' > TotalPages paginationInfo then
              (let end' = TotalPages paginationInfo;
                   start = end' - 4;
                   start = (if start < 1 then 1 else start)
               in (start, end'))
            else (start, end'))
      else (1, TotalPages paginationInfo))"

text \<open>
  The list items written between \<open><ul class="pagination">\<close> and \<open></ul>\<close>, in the order in
  which they are written, and the text of each. The item at position \<open>k\<close> of the list builds
  its URL from the entries \<open>currentQueryParams k\<close>.
\<close>

datatype page_item =
    PrevLink string
  | PrevDisabled
  | PageActive int
  | PageLink string int
  | NextLink string
  | NextDisabled

definition paginationItems ::
    "PaginationInfo \<Rightarrow> Pagination \<Rightarrow> (nat \<Rightarrow> (string \<times> string) list) \<Rightarrow> page_item list" where
  "paginationItems paginationInfo pagination currentQueryParams =
     (let baseURL = Pagination.BaseURL pagination;
          queryParam = (if Pagination.QueryParam pagination = [] then ''page''
                        else Pagination.QueryParam pagination);
          currentPage = PaginationInfo.CurrentPage paginationInfo;
          previous = (if currentPage > 1
                      then PrevLink (generateURL baseURL queryParam (currentQueryParams 0)
                                       (currentPage - 1))
                      else PrevDisabled);
          numbered = map (\<lambda>(k, i). if i = currentPage then PageActive i
                                     else PageLink (generateURL baseURL queryParam
                                                      (currentQueryParams k) i) i)
                       (enumerate 1 [fst (pageWindow paginationInfo) ..
                                     snd (pageWindow paginationInfo)]);
          next = (if currentPage < TotalPages paginationInfo
                  then NextLink (generateURL baseURL queryParam
                                   (currentQueryParams (Suc (length numbered)))
                                   (currentPage + 1))
                  else NextDisabled)
      in previous # numbered @ [next])"

fun renderItem :: "page_item \<Rightarrow> string" where
  \<open>renderItem (PrevLink url) =
     ''<li class="page-item"><a class="page-link" href="'' @ url @ ''">Previous</a></li>''\<close>
| \<open>renderItem PrevDisabled =
     ''<li class="page-item disabled"><span class="page-link">Previous</span></li>''\<close>
| \<open>renderItem (PageActive i) =
     ''<li class="page-item active"><span class="page-link">'' @ fmt_d i @ ''</span></li>''\<close>
| \<open>renderItem (PageLink url i) =
     ''<li class="page-item"><a class="page-link" href="'' @ url @ ''">'' @ fmt_d i
       @ ''</a></li>''\<close>
| \<open>renderItem (NextLink url) =
     ''<li class="page-item"><a class="page-link" href="'' @ url @ ''">Next</a></li>''\<close>
| \<open>renderItem NextDisabled =
     ''<li class="page-item disabled"><span class="page-link">Next</span></li>''\<close>

datatype go_error = Panic | Error string

definition paginationOpen :: string where
  \<open>paginationOpen = ''<nav aria-label="Table pagination">'' @ ''<ul class="pagination">''\<close>

definition paginationClose :: string where
  "paginationClose = ''</ul>'' @ ''</nav>''"

definition generatePaginationHTML ::
    "PaginationInfo \<Rightarrow> Pagination option \<Rightarrow> (nat \<Rightarrow> (string \<times> string) list)
       \<Rightarrow> go_error + string" where
  \<open>generatePaginationHTML paginationInfo pagination currentQueryParams =
     (if TotalPages paginationInfo \<le> 1 then Inr []
      else case pagination of
             None \<Rightarrow> Inl Panic
           | Some p \<Rightarrow>
               Inr (paginationOpen
                    @ concat (map renderItem (paginationItems paginationInfo p currentQueryParams))
                    @ paginationClose))\<close>

text \<open>The URLs and the page numbers among the items.\<close>

fun itemURLs :: "page_item list \<Rightarrow> string list" where
  "itemURLs [] = []"
| "itemURLs (PrevLink url # items) = url # itemURLs items"
| "itemURLs (PageLink url i # items) = url # itemURLs items"
| "itemURLs (NextLink url # items) = url # itemURLs items"
| "itemURLs (_ # items) = itemURLs items"


definition hasPair :: "string \<Rightarrow> string \<Rightarrow> string \<Rightarrow> bool" where
  "hasPair url key value =
     sublist (''&'' @ key @ ''='' @ value @ ''&'') (''&'' @ afterFirst (CHR ''?'') url @ ''&'')"

definition pageParamOf :: "Pagination \<Rightarrow> string" where
  "pageParamOf p = (if Pagination.QueryParam p = [] then ''page'' else Pagination.QueryParam p)"

definition firstOfTwelve :: PaginationInfo where
  "firstOfTwelve =
     \<lparr>PaginationInfo.CurrentPage = 1, TotalPages = 12, TotalRows = 120, PageSize = 10,
      StartRow = 1, EndRow = 10\<rparr>"

section \<open>The row source\<close>

text \<open>
  What \<^verbatim>\<open>reflect\<close> shows of the \<open>Data\<close> field. A struct field has a name, a tag (the
  key-value pairs of the conventional tag string) and is exported or not; a value is a
  struct (its fields with their contents), a pointer (nil or not), a slice, or anything
  else. The contents of a cell are of an arbitrary type \<open>'v\<close>.
\<close>

record StructField =
  Name :: string
  Tag :: "(string \<times> string) list"
  Exported :: bool

datatype 'v Value =
    StructValue "(StructField \<times> 'v) list"
  | PtrValue "'v Value option"
  | SliceValue "'v Value list"
  | OtherValue

definition Tag_Get :: "(string \<times> string) list \<Rightarrow> string \<Rightarrow> string" where
  "Tag_Get tag key = (case map_of tag key of None \<Rightarrow> [] | Some v \<Rightarrow> v)"

text \<open>
  \<^verbatim>\<open>if v.Kind() == reflect.Ptr { v = v.Elem() }\<close>: one level of indirection is removed; the
  element of a nil pointer is the invalid value, which is neither a slice nor a struct.
\<close>

definition deref :: "'v Value \<Rightarrow> 'v Value" where
  "deref v = (case v of PtrValue None \<Rightarrow> OtherValue | PtrValue (Some x) \<Rightarrow> x | _ \<Rightarrow> v)"

definition extractHeadersFromStruct :: "StructField list \<Rightarrow> string list" where
  "extractHeadersFromStruct structType =
     map (\<lambda>field.
            let tag = Tag_Get (Tag field) ''json''
            in if tag \<noteq> [] \<and> tag \<noteq> ''-'' then
                 (let tagName = strings_Split tag (CHR '','') ! 0
                  in if tagName \<noteq> [] then tagName else Name field)
               else Name field)
       structType"

text \<open>
  The loop of \<^verbatim>\<open>convertStructSliceToRows\<close> over the elements: \<^verbatim>\<open>NumField\<close> panics on an
  element that is not a struct, \<^verbatim>\<open>Interface\<close> on an unexported field.
\<close>

definition structRow :: "'v Value \<Rightarrow> 'v list option" where
  "structRow elem =
     (case deref elem of
        StructValue flds \<Rightarrow>
          if list_all (\<lambda>(field, cell). Exported field) flds then Some (map snd flds)
          else None
      | _ \<Rightarrow> None)"

fun rowsLoop :: "'v Value list \<Rightarrow> 'v list list option" where
  "rowsLoop [] = Some []"
| "rowsLoop (elem # elems) =
     (case structRow elem of
        None \<Rightarrow> None
      | Some row \<Rightarrow> (case rowsLoop elems of None \<Rightarrow> None | Some rows \<Rightarrow> Some (row # rows)))"

definition convertStructSliceToRows :: "'v Value \<Rightarrow> go_error + (string list \<times> 'v list list)" where
  "convertStructSliceToRows data =
     (case deref data of
        SliceValue elems \<Rightarrow>
          (case elems of
             [] \<Rightarrow> Inr ([], [])
           | firstElem # _ \<Rightarrow>
               (case deref firstElem of
                  StructValue flds \<Rightarrow>
                    (let headers = extractHeadersFromStruct (map fst flds)
                     in case rowsLoop elems of
                          None \<Rightarrow> Inl Panic
                        | Some rows \<Rightarrow> Inr (headers, rows))
                | _ \<Rightarrow> Inl (Error ''slice elements must be structs'')))
      | _ \<Rightarrow> Inl (Error ''data must be a slice of structs''))"

text \<open>
  The opening of \<^verbatim>\<open>RenderHTML\<close>: which headers and rows the rest of the function renders.
  \<open>Data\<close> is an interface value, \<open>None\<close> when nil.
\<close>

definition RenderHTML_source ::
    "string list \<Rightarrow> 'v list list \<Rightarrow> 'v Value option \<Rightarrow> go_error + (string list \<times> 'v list list)" where
  "RenderHTML_source Headers Rows Data =
     (case Data of
        Some d \<Rightarrow>
          (case convertStructSliceToRows d of
             Inl Panic \<Rightarrow> Inl Panic
           | Inl (Error msg) \<Rightarrow> Inl (Error (''failed to convert struct data: '' @ msg))
           | Inr (headers, rows) \<Rightarrow>
               Inr (if length Headers > 0 then Headers else headers, rows))
      | None \<Rightarrow> Inr (Headers, Rows))"

text \<open>
  The header of a field as the specification words it: the name in the json tag, that is
  the tag up to its first comma, when the tag is present, is not \<open>-\<close> and has a name;
  otherwise the name of the field.
\<close>

definition jsonHeader :: "StructField \<Rightarrow> string" where
  "jsonHeader field =
     (case map_of (Tag field) ''json'' of
        None \<Rightarrow> Name field
      | Some tag \<Rightarrow>
          if tag = [] \<or> tag = ''-'' \<or> takeWhile (\<lambda>c. c \<noteq> CHR '','') tag = [] then Name field
          else takeWhile (\<lambda>c. c \<noteq> CHR '','') tag)"

definition structsOnly :: "'v Value list \<Rightarrow> bool" where
  "structsOnly elems =
     list_all (\<lambda>elem. case deref elem of
                         StructValue flds \<Rightarrow> list_all (\<lambda>(field, cell). Exported field) flds
                       | _ \<Rightarrow> False) elems"

definition cells :: "'v Value \<Rightarrow> 'v list" where
  "cells elem = (case deref elem of StructValue flds \<Rightarrow> map snd flds | _ \<Rightarrow> [])"

text \<open>A user record with a tagged and an untagged field, as one element of a slice.\<close>

definition userStruct :: "string Value" where
  "userStruct =
     StructValue
       [(\<lparr>Name = ''FullName'', Tag = [(''json'', ''name,omitempty'')], Exported = True\<rparr>, ''Ann''),
        (\<lparr>Name = ''Age'', Tag = [], Exported = True\<rparr>, ''41'')]"

section \<open>Properties of the pagination state\<close>

lemma go_div_nonneg: "0 \<le> a \<Longrightarrow> 0 < b \<Longrightarrow> go_div a b = a div b"
  by (simp add: go_div_def)


lemma div_round_up_pos:
  fixes r ps :: int
  assumes "0 < ps" and "1 \<le> r"
  shows "1 \<le> (r + ps - 1) div ps"
proof -
  have "ps div ps \<le> (r + ps - 1) div ps"
    using assms by (intro zdiv_mono1) linarith+
  then show ?thesis
    using assms by simp
qed

lemma calculatePagination_enabled:
  assumes "Pagination.Enabled p" and "1 \<le> Pagination.PageSize p"
  shows "TotalRows (calculatePagination n (Some p)) = (if TotalCount p = 0 then n else TotalCount p)"
    and "TotalPages (calculatePagination n (Some p)) =
           go_div ((if TotalCount p = 0 then n else TotalCount p) + Pagination.PageSize p - 1)
                  (Pagination.PageSize p)"
    and "PaginationInfo.CurrentPage (calculatePagination n (Some p)) =
           min (max (Pagination.CurrentPage p) 1) (TotalPages (calculatePagination n (Some p)))"
  using assms by (simp_all add: calculatePagination_def Let_def min_def max_def)




text \<open>
  C2. For the empty listing the lower clamp of the requested page to 1 is undone by the upper
  clamp to \<open>TotalPages = 0\<close>: the state has \<open>CurrentPage = 0\<close>, and a first row of \<open>-9\<close>.
\<close>

theorem calculatePagination_current_page_empty:
  "PaginationInfo.CurrentPage (calculatePagination 0 (Some emptyListing)) = 0
   \<and> TotalPages (calculatePagination 0 (Some emptyListing)) = 0
   \<and> StartRow (calculatePagination 0 (Some emptyListing)) = - 9
   \<and> \<not> (1 \<le> PaginationInfo.CurrentPage (calculatePagination 0 (Some emptyListing)))"
  by (simp add: calculatePagination_def emptyListing_def Let_def go_div_def)

theorem calculatePagination_current_page_empty_witness:
  "PaginationInfo.CurrentPage (calculatePagination 0 (Some emptyListing)) < 1"
  using calculatePagination_current_page_empty by simp

text \<open>Away from that case the clamped page does lie between 1 and \<open>TotalPages\<close>.\<close>

lemma calculatePagination_current_page_in_range:
  assumes "Pagination.Enabled p"
    and "1 \<le> Pagination.PageSize p"
    and "1 \<le> TotalRows (calculatePagination n (Some p))"
  shows "1 \<le> PaginationInfo.CurrentPage (calculatePagination n (Some p))
       \<and> PaginationInfo.CurrentPage (calculatePagination n (Some p))
           \<le> TotalPages (calculatePagination n (Some p))"
proof -
  let ?r = "TotalRows (calculatePagination n (Some p))"
  let ?ps = "Pagination.PageSize p"
  have rows: "?r = (if TotalCount p = 0 then n else TotalCount p)"
    using assms(1,2) by (rule calculatePagination_enabled(1))
  have "TotalPages (calculatePagination n (Some p)) = go_div (?r + ?ps - 1) ?ps"
    using calculatePagination_enabled(2) [OF assms(1,2)] rows by simp
  also have "\<dots> = (?r + ?ps - 1) div ?ps"
    using assms(2,3) by (intro go_div_nonneg) linarith+
  finally have pages: "TotalPages (calculatePagination n (Some p)) = (?r + ?ps - 1) div ?ps" .
  have "1 \<le> (?r + ?ps - 1) div ?ps"
    using assms(2,3) by (intro div_round_up_pos) linarith+
  with pages have "1 \<le> TotalPages (calculatePagination n (Some p))"
    by simp
  then show ?thesis
    using calculatePagination_enabled(3) [OF assms(1,2)] by (simp add: min_def max_def)
qed

section \<open>Properties of the query-string readers\<close>

lemma strings_Split_nonempty: "strings_Split s c \<noteq> []"
  by (induction s) (auto split: list.splits)

lemma strings_Split_absent: "c \<notin> set s \<Longrightarrow> strings_Split s c = [s]"
  by (induction s) auto

lemma strings_Split_present:
  "c \<in> set s \<Longrightarrow>
   strings_Split s c = takeWhile (\<lambda>x. x \<noteq> c) s # strings_Split (afterFirst c s) c"
proof (induction s)
  case Nil
  then show ?case by simp
next
  case (Cons x s)
  show ?case
  proof (cases "x = c")
    case True
    then show ?thesis by (simp add: afterFirst_def)
  next
    case False
    with Cons.prems have "c \<in> set s" by simp
    from Cons.IH [OF this] False show ?thesis
      by (simp add: afterFirst_def)
  qed
qed

lemma takeWhile_absent: "c \<notin> set s \<Longrightarrow> takeWhile (\<lambda>x. x \<noteq> c) s = s"
  by (simp add: takeWhile_eq_all_conv) blast

lemma strings_Split_hd: "hd (strings_Split s c) = takeWhile (\<lambda>x. x \<noteq> c) s"
  by (cases "c \<in> set s") (simp_all add: strings_Split_present strings_Split_absent takeWhile_absent)

lemma strings_SplitN2_pairOf:
  "CHR ''='' \<in> set pair \<Longrightarrow> strings_SplitN2 pair (CHR ''='') = [fst (pairOf pair), snd (pairOf pair)]"
  by (simp add: strings_SplitN2_def pairOf_def afterFirst_def)

lemma pageLoop_ge_1: "1 \<le> pageLoop params paramName"
  by (induction params) (auto simp: Let_def split: option.splits)

lemma pageLoop_default:
  assumes "\<forall>pair \<in> set params. CHR ''='' \<in> set pair \<longrightarrow> fst (pairOf pair) = paramName
             \<longrightarrow> \<not> positiveNumeral (snd (pairOf pair))"
  shows "pageLoop params paramName = 1"
  using assms
  by (induction params)
     (auto simp: Let_def strings_Contains_def strings_SplitN2_pairOf positiveNumeral_def
           split: option.splits)

lemma sortStep_order:
  "snd st = ''asc'' \<or> snd st = ''desc'' \<Longrightarrow>
   snd (sortStep sp op st param) = ''asc'' \<or> snd (sortStep sp op st param) = ''desc''"
  by (auto simp: sortStep_def Let_def)

lemma sortLoop_order:
  "snd st = ''asc'' \<or> snd st = ''desc'' \<Longrightarrow>
   snd (foldl (sortStep sp op) st params) = ''asc'' \<or>
   snd (foldl (sortStep sp op) st params) = ''desc''"
proof (induction params arbitrary: st)
  case Nil
  then show ?case by simp
next
  case (Cons param params)
  from Cons.prems have "snd (sortStep sp op st param) = ''asc'' \<or> snd (sortStep sp op st param) = ''desc''"
    by (rule sortStep_order)
  from Cons.IH [OF this] show ?case by simp
qed

lemma sortStep_keeps:
  assumes "CHR ''='' \<in> set param \<longrightarrow> fst (pairOf param) = op \<longrightarrow> snd (pairOf param) \<noteq> ''desc''"
  shows "snd (sortStep sp op st param) = snd st"
  using assms by (auto simp: sortStep_def Let_def strings_Contains_def strings_SplitN2_pairOf)

lemma sortLoop_keeps:
  assumes "\<forall>param \<in> set params. CHR ''='' \<in> set param \<longrightarrow> fst (pairOf param) = op
             \<longrightarrow> snd (pairOf param) \<noteq> ''desc''"
  shows "snd (foldl (sortStep sp op) st params) = snd st"
  using assms by (induction params arbitrary: st) (simp_all add: sortStep_keeps)

text \<open>
  C9. \<open>ParsePageFromQuery\<close> and \<open>ParseSortFromQuery\<close> are total functions with no error
  result. The page is always at least 1, and it is 1 when no pair of the query string has
  the page parameter as key and a positive numeral as value (the parameter is missing,
  not a numeral, zero or negative). The sort order is always \<open>asc\<close> or \<open>desc\<close>, and it is
  \<open>asc\<close> when no pair has the order parameter as key and \<open>desc\<close> as value.
\<close>

theorem query_inputs_normalized:
  "1 \<le> ParsePageFromQuery q name
   \<and> ((\<forall>pair \<in> set (querySegments q).
         fst (pairOf pair) = (if name = [] then ''page'' else name)
           \<longrightarrow> \<not> positiveNumeral (snd (pairOf pair)))
        \<longrightarrow> ParsePageFromQuery q name = 1)
   \<and> snd (ParseSortFromQuery q sp op) \<in> {''asc'', ''desc''}
   \<and> ((\<forall>pair \<in> set (querySegments q).
         fst (pairOf pair) = (if op = [] then ''sort_order'' else op)
           \<longrightarrow> snd (pairOf pair) \<noteq> ''desc'')
        \<longrightarrow> snd (ParseSortFromQuery q sp op) = ''asc'')"
proof (intro conjI impI)
  show "1 \<le> ParsePageFromQuery q name"
    by (simp add: ParsePageFromQuery_def Let_def pageLoop_ge_1)
next
  assume "\<forall>pair \<in> set (querySegments q).
            fst (pairOf pair) = (if name = [] then ''page'' else name)
              \<longrightarrow> \<not> positiveNumeral (snd (pairOf pair))"
  then have "\<forall>pair \<in> set (strings_Split (strings_TrimPrefix q (CHR ''?'')) (CHR ''&'')).
               CHR ''='' \<in> set pair \<longrightarrow> fst (pairOf pair) = (if name = [] then ''page'' else name)
                 \<longrightarrow> \<not> positiveNumeral (snd (pairOf pair))"
    by (simp add: querySegments_def)
  then have "pageLoop (strings_Split (strings_TrimPrefix q (CHR ''?'')) (CHR ''&''))
               (if name = [] then ''page'' else name) = 1"
    by (rule pageLoop_default)
  then show "ParsePageFromQuery q name = 1"
    by (simp add: ParsePageFromQuery_def Let_def)
next
  have "snd (foldl (sortStep (if sp = [] then ''sort_by'' else sp)
               (if op = [] then ''sort_order'' else op)) ([], ''asc'')
            (strings_Split (strings_TrimPrefix q (CHR ''?'')) (CHR ''&''))) = ''asc''
      \<or> snd (foldl (sortStep (if sp = [] then ''sort_by'' else sp)
               (if op = [] then ''sort_order'' else op)) ([], ''asc'')
            (strings_Split (strings_TrimPrefix q (CHR ''?'')) (CHR ''&''))) = ''desc''"
    by (rule sortLoop_order) simp
  then show "snd (ParseSortFromQuery q sp op) \<in> {''asc'', ''desc''}"
    by (simp add: ParseSortFromQuery_def Let_def)
next
  assume "\<forall>pair \<in> set (querySegments q).
            fst (pairOf pair) = (if op = [] then ''sort_order'' else op)
              \<longrightarrow> snd (pairOf pair) \<noteq> ''desc''"
  then have "\<forall>pair \<in> set (strings_Split (strings_TrimPrefix q (CHR ''?'')) (CHR ''&'')).
               CHR ''='' \<in> set pair \<longrightarrow> fst (pairOf pair) = (if op = [] then ''sort_order'' else op)
                 \<longrightarrow> snd (pairOf pair) \<noteq> ''desc''"
    by (simp add: querySegments_def)
  then have "snd (foldl (sortStep (if sp = [] then ''sort_by'' else sp)
                    (if op = [] then ''sort_order'' else op)) ([], ''asc'')
                 (strings_Split (strings_TrimPrefix q (CHR ''?'')) (CHR ''&''))) = snd ([]::string, ''asc'')"
    by (rule sortLoop_keeps)
  then show "snd (ParseSortFromQuery q sp op) = ''asc''"
    by (simp add: ParseSortFromQuery_def Let_def)
qed


theorem query_inputs_normalized_witness:
  "ParsePageFromQuery ''?page=0&sort_order=up'' ''page'' = 1
   \<and> snd (ParseSortFromQuery ''?page=0&sort_order=up'' ''sort_by'' ''sort_order'') = ''asc''"
proof -
  have segs: "querySegments ''?page=0&sort_order=up'' = [''page=0'', ''sort_order=up'']"
    by code_simp
  have p: "\<forall>pair \<in> set (querySegments ''?page=0&sort_order=up'').
             fst (pairOf pair) = (if ''page'' = [] then ''page'' else ''page'')
               \<longrightarrow> \<not> positiveNumeral (snd (pairOf pair))"
    unfolding segs by code_simp
  have s: "\<forall>pair \<in> set (querySegments ''?page=0&sort_order=up'').
             fst (pairOf pair) = (if ''sort_order'' = [] then ''sort_order'' else ''sort_order'')
               \<longrightarrow> snd (pairOf pair) \<noteq> ''desc''"
    unfolding segs by code_simp
  from query_inputs_normalized [of "''?page=0&sort_order=up''" "''page''" "''sort_by''" "''sort_order''"] p s
  show ?thesis by blast
qed

lemma paramStep_pairOf:
  "paramStep m pair =
     (if CHR ''='' \<in> set pair then m(fst (pairOf pair) \<mapsto> snd (pairOf pair)) else m)"
  by (simp add: paramStep_def strings_Contains_def strings_SplitN2_pairOf Let_def)

lemma paramLoop_map_of:
  "foldl paramStep m pairs =
     m ++ map_of (rev (map pairOf (filter (\<lambda>pair. CHR ''='' \<in> set pair) pairs)))"
proof (induction pairs arbitrary: m)
  case Nil
  then show ?case by simp
next
  case (Cons pair pairs)
  let ?rest = "map_of (rev (map pairOf (filter (\<lambda>pair. CHR ''='' \<in> set pair) pairs)))"
  have "foldl paramStep m (pair # pairs) = foldl paramStep (paramStep m pair) pairs"
    by simp
  also have "\<dots> = paramStep m pair ++ ?rest"
    by (rule Cons.IH)
  finally have unfolded: "foldl paramStep m (pair # pairs) = paramStep m pair ++ ?rest" .
  show ?case
  proof (cases "CHR ''='' \<in> set pair")
    case True
    then have "paramStep m pair = m(fst (pairOf pair) \<mapsto> snd (pairOf pair))"
      by (simp add: paramStep_pairOf)
    with True unfolded show ?thesis
      by simp
  next
    case False
    then have "paramStep m pair = m"
      by (simp add: paramStep_pairOf)
    with False unfolded show ?thesis
      by simp
  qed
qed

lemma strings_Split_second:
  "c \<in> set s \<Longrightarrow> 1 < length (strings_Split s c)
     \<and> strings_Split s c ! 1 = takeWhile (\<lambda>x. x \<noteq> c) (afterFirst c s)"
proof -
  assume "c \<in> set s"
  then have "strings_Split s c = takeWhile (\<lambda>x. x \<noteq> c) s # strings_Split (afterFirst c s) c"
    by (rule strings_Split_present)
  moreover obtain y ys where "strings_Split (afterFirst c s) c = y # ys"
    using strings_Split_nonempty [of "afterFirst c s" c] by (cases "strings_Split (afterFirst c s) c") auto
  moreover from this have "y = takeWhile (\<lambda>x. x \<noteq> c) (afterFirst c s)"
    using strings_Split_hd [of "afterFirst c s" c] by simp
  ultimately show ?thesis by simp
qed

lemma strings_TrimPrefix_absent: "c \<notin> set s \<Longrightarrow> strings_TrimPrefix s c = s"
  by (cases s) (auto simp: strings_TrimPrefix_def)

lemma keyValuePairs_empty: "keyValuePairs [] = []"
  by (simp add: keyValuePairs_def)

text \<open>What the code parses: only the text between the first and the second \<open>?\<close>.\<close>

lemma parseQueryParams_parses:
  "parseQueryParams urlOrQuery =
     map_of (rev (keyValuePairs
       (if CHR ''?'' \<in> set urlOrQuery
        then takeWhile (\<lambda>x. x \<noteq> CHR ''?'') (afterFirst (CHR ''?'') urlOrQuery)
        else urlOrQuery)))"
proof (cases "CHR ''?'' \<in> set urlOrQuery")
  case True
  let ?q = "takeWhile (\<lambda>x. x \<noteq> CHR ''?'') (afterFirst (CHR ''?'') urlOrQuery)"
  have "CHR ''?'' \<notin> set ?q"
    by (auto dest: set_takeWhileD)
  then have trim: "strings_TrimPrefix ?q (CHR ''?'') = ?q"
    by (rule strings_TrimPrefix_absent)
  from True have ne: "urlOrQuery \<noteq> []"
    by auto
  from True ne trim strings_Split_second [OF True] show ?thesis
    by (cases "?q = []")
       (simp_all add: parseQueryParams_def strings_Contains_def Let_def paramLoop_map_of
          keyValuePairs_def)
next
  case False
  then have "strings_TrimPrefix urlOrQuery (CHR ''?'') = urlOrQuery"
    by (rule strings_TrimPrefix_absent)
  with False show ?thesis
    by (cases "urlOrQuery = []")
       (simp_all add: parseQueryParams_def strings_Contains_def Let_def paramLoop_map_of
          keyValuePairs_def)
qed

lemma parse_spec_pairs:
  "parse_spec urlOrQuery =
     map_of (rev (keyValuePairs
       (if CHR ''?'' \<in> set urlOrQuery then afterFirst (CHR ''?'') urlOrQuery else urlOrQuery)))"
  by (simp add: parse_spec_def keyValuePairs_def Let_def)

text \<open>With at most one \<open>?\<close> in the input the code is the codec of the specification.\<close>

lemma parseQueryParams_parse_spec:
  assumes "CHR ''?'' \<notin> set (afterFirst (CHR ''?'') urlOrQuery)"
  shows "parseQueryParams urlOrQuery = parse_spec urlOrQuery"
  using assms by (simp add: parseQueryParams_parses parse_spec_pairs takeWhile_absent)

lemma parseQueryParams_empty: "parseQueryParams [] = Map.empty"
  by (simp add: parseQueryParams_def)

text \<open>
  C6. A second \<open>?\<close> in the input ends what \<open>parseQueryParams\<close> reads: the remainder after
  the first \<open>?\<close> is not parsed as a whole, and the parameters behind the second \<open>?\<close> are
  lost, where the codec of the specification keeps them.
\<close>

theorem parseQueryParams_second_question_mark:
  "parseQueryParams ''/list?q=a?b&sort_by=name'' ''q'' = Some ''a''
   \<and> parseQueryParams ''/list?q=a?b&sort_by=name'' ''sort_by'' = None
   \<and> parse_spec ''/list?q=a?b&sort_by=name'' ''q'' = Some ''a?b''
   \<and> parse_spec ''/list?q=a?b&sort_by=name'' ''sort_by'' = Some ''name''"
  by code_simp

section \<open>Properties of the sort links\<close>

lemma strings_Join_Cons:
  "strings_Join (x # xs) sep = x @ concat (map (\<lambda>y. sep @ y) xs)"
  by (induction xs arbitrary: x) simp_all

lemma carried_join3:
  "concat (map (\<lambda>y. ''&'' @ y) (map (\<lambda>(key, value). key @ ''='' @ value)
     (filter (\<lambda>(key, value). key \<noteq> a \<and> key \<noteq> b \<and> key \<noteq> c) kvs)))
   = carried [a, b, c] kvs"
  by (induction kvs) (auto simp: carried_def)

lemma sortLink_query:
  "sortLink s kvs header =
     urlHead (Sorting.BaseURL s)
       @ strings_Join
           ((sortParamOf s @ ''='' @ header)
            # (orderParamOf s @ ''=''
                 @ (if SortBy s = header \<and> SortOrder s = ''asc'' then ''desc'' else ''asc''))
            # map (\<lambda>(key, value). key @ ''='' @ value)
                (filter (\<lambda>(key, value). key \<noteq> sortParamOf s \<and> key \<noteq> orderParamOf s
                           \<and> key \<noteq> ''page'') kvs))
           ''&''"
  by (simp add: sortLink_def Let_def urlHead_def sortParamOf_def orderParamOf_def
        strings_Contains_def)

lemma sortLink_text:
  "sortLink s kvs header =
     urlHead (Sorting.BaseURL s) @ sortParamOf s @ ''='' @ header @ ''&'' @ orderParamOf s @ ''=''
       @ (if SortBy s = header \<and> SortOrder s = ''asc'' then ''desc'' else ''asc'')
       @ carried [sortParamOf s, orderParamOf s, ''page''] kvs"
  unfolding sortLink_query strings_Join_Cons list.map concat.simps carried_join3
  by simp

text \<open>
  C3. With sorting enabled, the link generated for the column at any position of any header
  list is the URL head, the sort parameter set to that column, the order parameter, and the
  carried parameters; the order parameter is set to \<open>desc\<close> if the column is the current
  \<open>SortBy\<close> and the current \<open>SortOrder\<close> is \<open>asc\<close>, and to \<open>asc\<close> in every other case.
\<close>

theorem generateSortLinks_toggle:
  assumes "Sorting.Enabled s" and "i < length headers"
  shows "generateSortLinks headers (Some s) kvs ! i =
           urlHead (Sorting.BaseURL s) @ sortParamOf s @ ''='' @ headers ! i @ ''&''
             @ orderParamOf s @ ''=''
             @ (if headers ! i = SortBy s \<and> SortOrder s = ''asc'' then ''desc'' else ''asc'')
             @ carried [sortParamOf s, orderParamOf s, ''page''] (kvs i)"
proof -
  from assms have "generateSortLinks headers (Some s) kvs ! i = sortLink s (kvs i) (headers ! i)"
    by (simp add: generateSortLinks_def)
  then show ?thesis
    by (simp add: sortLink_text eq_commute [of "SortBy s"])
qed

theorem generateSortLinks_toggle_witness:
  "generateSortLinks [''id'', ''name''] (Some usersByName)
     (\<lambda>i. [(''page'', ''3''), (''search'', ''bob'')]) ! 1
     = ''/users?sort_by=name&sort_order=desc&search=bob''
   \<and> generateSortLinks [''id'', ''name''] (Some usersByName)
     (\<lambda>i. [(''page'', ''3''), (''search'', ''bob'')]) ! 0
     = ''/users?sort_by=id&sort_order=asc&search=bob''"
proof -
  have e: "Sorting.Enabled usersByName"
    by (simp add: usersByName_def)
  have "(1::nat) < length [''id'', ''name'']" and "(0::nat) < length [''id'', ''name'']"
    by simp_all
  from generateSortLinks_toggle [OF e this(1)] generateSortLinks_toggle [OF e this(2)]
  show ?thesis
    by (simp add: usersByName_def urlHead_def sortParamOf_def orderParamOf_def carried_def)
qed

text \<open>
  C10. For every header list and every sorting configuration, nil and disabled included,
  \<open>generateSortLinks\<close> returns as many links as there are headers, and so does the slice
  that \<open>RenderHTML\<close> hands to the template: indexing it at a header's position is in bounds.
\<close>

theorem generateSortLinks_length:
  "length (generateSortLinks headers sorting kvs) = length headers
   \<and> length (RenderHTML_sortLinks headers sorting kvs) = length headers"
  by (simp add: generateSortLinks_def RenderHTML_sortLinks_def split: option.split)

section \<open>Following a sort link\<close>

lemma strings_Split_append:
  "c \<notin> set x \<Longrightarrow> strings_Split (x @ c # rest) c = x # strings_Split rest c"
  by (induction x) auto

lemma strings_Split_Join:
  assumes "segs \<noteq> []" and "\<forall>seg \<in> set segs. c \<notin> set seg"
  shows "strings_Split (strings_Join segs [c]) c = segs"
  using assms
proof (induction segs "[c]" rule: strings_Join.induct)
  case 1
  then show ?case by simp
next
  case (2 x)
  then show ?case by (simp add: strings_Split_absent)
next
  case (3 x y ys)
  then show ?case by (simp add: strings_Split_append)
qed

lemma pairOf_built: "CHR ''='' \<notin> set k \<Longrightarrow> pairOf (k @ ''='' @ v) = (k, v)"
  by (simp add: pairOf_def afterFirst_def takeWhile_append dropWhile_append takeWhile_absent
        dropWhile_eq_Nil_conv)

lemma sortStep_built:
  assumes "CHR ''='' \<notin> set k"
  shows "sortStep sp op st (k @ ''='' @ v) =
           (if k = sp then (v, snd st)
            else if k = op then (if v = ''desc'' then (fst st, ''desc'') else st)
            else st)"
proof -
  have "CHR ''='' \<in> set (k @ ''='' @ v)"
    by simp
  then have "strings_SplitN2 (k @ ''='' @ v) (CHR ''='') = [k, v]"
    using pairOf_built [OF assms, of v] by (simp add: strings_SplitN2_pairOf)
  then show ?thesis
    by (simp add: sortStep_def strings_Contains_def Let_def)
qed

lemma sortStep_built_Cons:
  assumes "CHR ''='' \<notin> set k"
  shows "sortStep sp op st (k @ CHR ''='' # v) =
           (if k = sp then (v, snd st)
            else if k = op then (if v = ''desc'' then (fst st, ''desc'') else st)
            else st)"
  using sortStep_built [OF assms, of sp op st v] by simp

lemma sortLoop_carried:
  assumes "list_all (\<lambda>(key, value). CHR ''='' \<notin> set key \<and> key \<noteq> sp \<and> key \<noteq> op) kvs"
  shows "foldl (sortStep sp op) st (map (\<lambda>(key, value). key @ ''='' @ value) kvs) = st"
  using assms by (induction kvs arbitrary: st) (auto simp: sortStep_built_Cons)


lemma afterFirst_urlHead:
  assumes "CHR ''?'' \<notin> set baseURL"
  shows "afterFirst (CHR ''?'') (urlHead baseURL @ rest) = rest"
  using assms
  by (simp add: urlHead_def afterFirst_def dropWhile_append dropWhile_eq_Nil_conv)

lemma plainName_D:
  "plainName n \<Longrightarrow> CHR ''?'' \<notin> set n \<and> CHR ''&'' \<notin> set n \<and> CHR ''='' \<notin> set n"
  by (auto simp: plainName_def list_all_iff)

text \<open>What the reader makes of a generated sort link, under the conditions above.\<close>

lemma followSortLink_sortLink:
  assumes base: "CHR ''?'' \<notin> set (Sorting.BaseURL s)"
    and names: "plainName (sortParamOf s)" "plainName (orderParamOf s)"
      "sortParamOf s \<noteq> orderParamOf s"
    and column: "CHR ''&'' \<notin> set header"
    and params: "plainParams kvs"
  shows "ParseSortFromQuery (afterFirst (CHR ''?'') (sortLink s kvs header))
           (Sorting.QueryParam s) (OrderParam s)
         = (header, if SortBy s = header \<and> SortOrder s = ''asc'' then ''desc'' else ''asc'')"
proof -
  let ?sp = "sortParamOf s" and ?op = "orderParamOf s"
  let ?ord = "if SortBy s = header \<and> SortOrder s = ''asc'' then ''desc'' else ''asc''"
  let ?kept = "filter (\<lambda>(key, value). key \<noteq> ?sp \<and> key \<noteq> ?op \<and> key \<noteq> ''page'') kvs"
  let ?segs = "(?sp @ ''='' @ header) # (?op @ ''='' @ ?ord)
                 # map (\<lambda>(key, value). key @ ''='' @ value) ?kept"
  let ?qs = "strings_Join ?segs ''&''"
  note sp = plainName_D [OF names(1)] and op = plainName_D [OF names(2)]
  have link: "afterFirst (CHR ''?'') (sortLink s kvs header) = ?qs"
    unfolding sortLink_query by (rule afterFirst_urlHead [OF base])
  have sp_ne: "?sp \<noteq> []"
    by (simp add: sortParamOf_def)
  have qs_text: "?qs = ?sp @ ''='' @ header @ concat (map (\<lambda>y. ''&'' @ y)
                   ((?op @ ''='' @ ?ord) # map (\<lambda>(key, value). key @ ''='' @ value) ?kept))"
    by (simp only: strings_Join_Cons append_assoc)
  have qs_ne: "?qs \<noteq> []"
    unfolding qs_text using sp_ne by simp
  have "hd ?qs = hd ?sp"
    unfolding qs_text using sp_ne by simp
  with sp sp_ne have "hd ?qs \<noteq> CHR ''?''"
    by (metis hd_in_set)
  with qs_ne have trim: "strings_TrimPrefix ?qs (CHR ''?'') = ?qs"
    by (cases ?qs) (simp_all add: strings_TrimPrefix_def)
  have kept_plain: "\<forall>(key, value) \<in> set ?kept. CHR ''&'' \<notin> set key \<and> CHR ''='' \<notin> set key
                      \<and> CHR ''&'' \<notin> set value \<and> key \<noteq> ?sp \<and> key \<noteq> ?op"
    using params by (auto simp: plainParams_def list_all_iff)
  have amp: "\<forall>seg \<in> set ?segs. CHR ''&'' \<notin> set seg"
    using sp op column kept_plain by auto
  have split: "strings_Split ?qs (CHR ''&'') = ?segs"
    by (rule strings_Split_Join) (simp, rule amp)
  have rest: "foldl (sortStep ?sp ?op) st (map (\<lambda>(key, value). key @ ''='' @ value) ?kept) = st"
    for st
    using kept_plain by (intro sortLoop_carried) (auto simp: list_all_iff)
  have sp_eq: "CHR ''='' \<notin> set ?sp" and op_eq: "CHR ''='' \<notin> set ?op"
    using sp op by simp_all
  have first: "sortStep ?sp ?op ([], ''asc'') (?sp @ ''='' @ header) = (header, ''asc'')"
    by (subst sortStep_built [OF sp_eq]) simp
  have second: "sortStep ?sp ?op (header, ''asc'') (?op @ ''='' @ ?ord) = (header, ?ord)"
    using names(3) by (subst sortStep_built [OF op_eq]) auto
  have "foldl (sortStep ?sp ?op) ([], ''asc'') ?segs = (header, ?ord)"
    by (simp only: foldl.simps first second rest)
  with link trim split qs_ne show ?thesis
    by (simp add: ParseSortFromQuery_def Let_def sortParamOf_def orderParamOf_def)
qed


lemma clickColumn_state:
  assumes "Sorting.Enabled s" and "i < length headers"
    and "CHR ''?'' \<notin> set (Sorting.BaseURL s)"
    and "plainName (sortParamOf s)" and "plainName (orderParamOf s)"
    and "sortParamOf s \<noteq> orderParamOf s"
    and "CHR ''&'' \<notin> set (headers ! i)"
    and "plainParams (kvs i)"
  shows "clickColumn s kvs headers i =
           s\<lparr>SortBy := headers ! i,
             SortOrder := (if SortBy s = headers ! i \<and> SortOrder s = ''asc'' then ''desc''
                           else ''asc'')\<rparr>"
proof -
  from assms(1,2)
  have "generateSortLinks headers (Some s) kvs ! i = sortLink s (kvs i) (headers ! i)"
    by (simp add: generateSortLinks_def)
  then show ?thesis
    by (simp add: clickColumn_def followSortLink_def Let_def
          followSortLink_sortLink [OF assms(3-8)])
qed

text \<open>
  C8 (as amended). When the base URL has no query of its own, the two parameter names are
  distinct and free of \<open>?\<close>, \<open>&\<close> and \<open>=\<close>, the column name has no \<open>&\<close> and the carried
  parameters are plain, then from the state sorted by column \<open>C\<close> in order \<open>asc\<close>,
  following the link generated for \<open>C\<close> gives the state sorted by \<open>C\<close> in order \<open>desc\<close>, and
  following the link generated for \<open>C\<close> from that state gives the first state back.
\<close>

theorem sort_toggle_two_cycle:
  assumes "Sorting.Enabled s" and "i < length headers"
    and "CHR ''?'' \<notin> set (Sorting.BaseURL s)"
    and "plainName (sortParamOf s)" and "plainName (orderParamOf s)"
    and "sortParamOf s \<noteq> orderParamOf s"
    and "CHR ''&'' \<notin> set (headers ! i)"
    and "plainParams (kvs i)" and "plainParams (kvs' i)"
    and "SortBy s = headers ! i" and "SortOrder s = ''asc''"
  shows "SortBy (clickColumn s kvs headers i) = headers ! i
       \<and> SortOrder (clickColumn s kvs headers i) = ''desc''
       \<and> clickColumn (clickColumn s kvs headers i) kvs' headers i = s"
proof -
  let ?s1 = "s\<lparr>SortBy := headers ! i, SortOrder := ''desc''\<rparr>"
  have one: "clickColumn s kvs headers i = ?s1"
    using clickColumn_state [where kvs = kvs, OF assms(1-8)] assms(10,11) by simp
  have names: "sortParamOf ?s1 = sortParamOf s" "orderParamOf ?s1 = orderParamOf s"
    by (simp_all add: sortParamOf_def orderParamOf_def)
  have "clickColumn ?s1 kvs' headers i =
          ?s1\<lparr>SortBy := headers ! i,
               SortOrder := (if SortBy ?s1 = headers ! i \<and> SortOrder ?s1 = ''asc'' then ''desc''
                             else ''asc'')\<rparr>"
    using assms(1-7,9) by (intro clickColumn_state [where kvs = kvs']) (simp_all add: names)
  also have "\<dots> = s"
    using assms(10,11) by simp
  finally have two: "clickColumn ?s1 kvs' headers i = s" .
  from one two show ?thesis
    by simp
qed

theorem sort_toggle_two_cycle_witness:
  "SortBy (clickColumn usersByName (\<lambda>i. [(''search'', ''bob'')]) [''id'', ''name''] 1) = ''name''
   \<and> SortOrder (clickColumn usersByName (\<lambda>i. [(''search'', ''bob'')]) [''id'', ''name''] 1)
       = ''desc''
   \<and> clickColumn (clickColumn usersByName (\<lambda>i. [(''search'', ''bob'')]) [''id'', ''name''] 1)
         (\<lambda>i. [(''page_size'', ''25'')]) [''id'', ''name''] 1 = usersByName"
proof -
  have h: "Sorting.Enabled usersByName" "(1::nat) < length [''id'', ''name'']"
    "CHR ''?'' \<notin> set (Sorting.BaseURL usersByName)"
    "plainName (sortParamOf usersByName)" "plainName (orderParamOf usersByName)"
    "sortParamOf usersByName \<noteq> orderParamOf usersByName"
    "CHR ''&'' \<notin> set ([''id'', ''name''] ! 1)"
    "plainParams ((\<lambda>i. [(''search'', ''bob'')]) (1::nat))"
    "plainParams ((\<lambda>i. [(''page_size'', ''25'')]) (1::nat))"
    "SortBy usersByName = [''id'', ''name''] ! 1" "SortOrder usersByName = ''asc''"
    by (simp_all add: usersByName_def plainName_def plainParams_def sortParamOf_def
          orderParamOf_def)
  from sort_toggle_two_cycle [where kvs = "\<lambda>i. [(''search'', ''bob'')]"
      and kvs' = "\<lambda>i. [(''page_size'', ''25'')]", OF h]
  show ?thesis
    by simp
qed

text \<open>
  C8 (as stated) fails for a column whose name carries an order pair of its own: the second
  link reads \<open>/users?sort_by=x&sort_order=desc&sort_order=asc\<close>, and the reader, which only
  ever switches to \<open>desc\<close>, reports \<open>desc\<close> again.
\<close>

theorem sort_toggle_two_cycle_counterexample:
  "SortBy sortedByOddColumn = [''x&sort_order=desc''] ! 0
   \<and> SortOrder sortedByOddColumn = ''asc''
   \<and> SortOrder (clickColumn sortedByOddColumn (\<lambda>i. []) [''x&sort_order=desc''] 0) = ''desc''
   \<and> SortOrder (clickColumn (clickColumn sortedByOddColumn (\<lambda>i. []) [''x&sort_order=desc''] 0)
         (\<lambda>i. []) [''x&sort_order=desc''] 0) = ''desc''"
  by code_simp

section \<open>Properties of the pagination controls\<close>








lemma carried_join1:
  "concat (map (\<lambda>y. ''&'' @ y) (map (\<lambda>(key, value). key @ ''='' @ value)
     (filter (\<lambda>(key, value). key \<noteq> a) kvs)))
   = carried [a] kvs"
  by (induction kvs) (auto simp: carried_def)

lemma generateURL_text:
  "generateURL baseURL queryParam kvs page =
     urlHead baseURL @ queryParam @ ''='' @ fmt_d page @ carried [queryParam] kvs"
proof -
  have "strings_Join ((queryParam @ ''='' @ fmt_d page)
          # map (\<lambda>(key, value). key @ ''='' @ value)
              (filter (\<lambda>(key, value). key \<noteq> queryParam) kvs)) ''&''
        = queryParam @ ''='' @ fmt_d page @ carried [queryParam] kvs"
    unfolding strings_Join_Cons carried_join1 by simp
  then show ?thesis
    by (simp add: generateURL_def Let_def urlHead_def strings_Contains_def)
qed

lemma carried_Cons:
  "carried ex ((k, v) # kvs) = (if k \<in> set ex then [] else ''&'' @ k @ ''='' @ v) @ carried ex kvs"
  by (simp add: carried_def)

lemma carried_starts: "\<exists>b. carried ex kvs @ ''&'' = ''&'' @ b"
proof (induction kvs)
  case Nil
  then show ?case by (simp add: carried_def)
next
  case (Cons kv kvs)
  then show ?case by (cases kv) (auto simp: carried_Cons)
qed

lemma carried_contains:
  assumes "(k, v) \<in> set kvs" and "k \<notin> set ex"
  shows "\<exists>a b. carried ex kvs @ ''&'' = a @ (''&'' @ k @ ''='' @ v @ ''&'') @ b"
  using assms(1)
proof (induction kvs)
  case Nil
  then show ?case by simp
next
  case (Cons kv kvs)
  obtain k' v' where kv: "kv = (k', v')"
    by (cases kv)
  show ?case
  proof (cases "kv = (k, v)")
    case True
    obtain b where "carried ex kvs @ ''&'' = ''&'' @ b"
      using carried_starts by blast
    with True assms(2) have "carried ex (kv # kvs) @ ''&'' = [] @ (''&'' @ k @ ''='' @ v @ ''&'') @ b"
      by (simp add: carried_Cons)
    then show ?thesis by blast
  next
    case False
    with Cons.prems have "(k, v) \<in> set kvs"
      by simp
    from Cons.IH [OF this] obtain a b
      where "carried ex kvs @ ''&'' = a @ (''&'' @ k @ ''='' @ v @ ''&'') @ b"
      by blast
    then have "carried ex (kv # kvs) @ ''&''
                 = ((if k' \<in> set ex then [] else ''&'' @ k' @ ''='' @ v') @ a)
                   @ (''&'' @ k @ ''='' @ v @ ''&'') @ b"
      by (simp add: kv carried_Cons)
    then show ?thesis by blast
  qed
qed

lemma afterFirst_append:
  assumes "c \<in> set xs"
  shows "afterFirst c (xs @ ys) = afterFirst c xs @ ys"
proof -
  from assms have "dropWhile (\<lambda>x. x \<noteq> c) (xs @ ys) = dropWhile (\<lambda>x. x \<noteq> c) xs @ ys"
    by (intro dropWhile_append1) auto
  moreover from assms obtain d ds where "dropWhile (\<lambda>x. x \<noteq> c) xs = d # ds"
    by (cases "dropWhile (\<lambda>x. x \<noteq> c) xs") (auto simp: dropWhile_eq_Nil_conv)
  ultimately show ?thesis
    by (simp add: afterFirst_def)
qed

lemma afterFirst_urlHead_rest: "\<exists>pre. afterFirst (CHR ''?'') (urlHead baseURL @ rest) = pre @ rest"
proof (cases "CHR ''?'' \<in> set baseURL")
  case True
  then have "CHR ''?'' \<in> set (urlHead baseURL)"
    by (simp add: urlHead_def)
  then have "afterFirst (CHR ''?'') (urlHead baseURL @ rest)
               = afterFirst (CHR ''?'') (urlHead baseURL) @ rest"
    by (rule afterFirst_append)
  then show ?thesis by blast
next
  case False
  then have "afterFirst (CHR ''?'') (urlHead baseURL @ rest) = [] @ rest"
    by (simp add: afterFirst_urlHead)
  then show ?thesis by blast
qed

lemma hasPair_generateURL:
  assumes "(k, v) \<in> set kvs" and "k \<noteq> queryParam"
  shows "hasPair (generateURL baseURL queryParam kvs page) k v"
proof -
  obtain pre where pre: "afterFirst (CHR ''?'') (generateURL baseURL queryParam kvs page)
      = pre @ queryParam @ ''='' @ fmt_d page @ carried [queryParam] kvs"
    unfolding generateURL_text using afterFirst_urlHead_rest by blast
  obtain a b where "carried [queryParam] kvs @ ''&'' = a @ (''&'' @ k @ ''='' @ v @ ''&'') @ b"
    using carried_contains [OF assms(1), of "[queryParam]"] assms(2) by auto
  then have "''&'' @ afterFirst (CHR ''?'') (generateURL baseURL queryParam kvs page) @ ''&''
               = (''&'' @ pre @ queryParam @ ''='' @ fmt_d page @ a)
                 @ (''&'' @ k @ ''='' @ v @ ''&'') @ b"
    by (simp add: pre)
  then show ?thesis
    unfolding hasPair_def by (metis sublist_appendI)
qed

lemma itemURLs_numbered:
  "set (itemURLs (map (\<lambda>(k, i). if i = cp then PageActive i else PageLink (u k i) i)
                    (enumerate n xs) @ rest))
     \<subseteq> (\<Union>k. range (u k)) \<union> set (itemURLs rest)"
  by (induction xs arbitrary: n) auto

lemma itemURLs_paginationItems:
  "set (itemURLs (paginationItems info p kvs))
     \<subseteq> (\<Union>k. range (generateURL (Pagination.BaseURL p) (pageParamOf p) (kvs k)))"
proof -
  define u where "u = (\<lambda>k. generateURL (Pagination.BaseURL p) (pageParamOf p) (kvs k))"
  define cp where "cp = PaginationInfo.CurrentPage info"
  define previous where "previous = (if cp > 1 then PrevLink (u 0 (cp - 1)) else PrevDisabled)"
  define numbered where
    "numbered = map (\<lambda>(k, i). if i = cp then PageActive i else PageLink (u k i) i)
                  (enumerate 1 [fst (pageWindow info) .. snd (pageWindow info)])"
  define nxt where
    "nxt = (if cp < TotalPages info then NextLink (u (Suc (length numbered)) (cp + 1))
            else NextDisabled)"
  have items: "paginationItems info p kvs = previous # numbered @ [nxt]"
    by (simp add: paginationItems_def Let_def pageParamOf_def u_def cp_def previous_def nxt_def
          numbered_def case_prod_unfold)
  have "set (itemURLs [nxt]) \<subseteq> (\<Union>k. range (u k))"
    by (auto simp: nxt_def)
  moreover have "set (itemURLs (numbered @ [nxt])) \<subseteq> (\<Union>k. range (u k)) \<union> set (itemURLs [nxt])"
    unfolding numbered_def by (rule itemURLs_numbered)
  ultimately have tail: "set (itemURLs (numbered @ [nxt])) \<subseteq> (\<Union>k. range (u k))"
    by blast
  have "set (itemURLs (previous # numbered @ [nxt])) \<subseteq> (\<Union>k. range (u k))"
  proof (cases "cp > 1")
    case True
    then have "itemURLs (previous # numbered @ [nxt]) = u 0 (cp - 1) # itemURLs (numbered @ [nxt])"
      by (simp add: previous_def)
    with tail show ?thesis by auto
  next
    case False
    then have "itemURLs (previous # numbered @ [nxt]) = itemURLs (numbered @ [nxt])"
      by (simp add: previous_def)
    with tail show ?thesis by simp
  qed
  then show ?thesis
    by (simp only: items u_def)
qed

lemma generatePaginationHTML_renders:
  "2 \<le> TotalPages info \<Longrightarrow>
   generatePaginationHTML info (Some p) kvs =
     Inr (paginationOpen @ concat (map renderItem (paginationItems info p kvs)) @ paginationClose)"
  by (simp add: generatePaginationHTML_def)

text \<open>
  C4. If the current query parameters hold entries for \<open>search\<close> and \<open>sort_by\<close>, and neither
  key is the page parameter, then every URL among the items that \<open>generatePaginationHTML\<close>
  writes (previous, next and each numbered page link) has both pairs, as written, as
  parameters of its query string.
\<close>

theorem generatePaginationHTML_preserves:
  assumes "\<forall>k. map_of (kvs k) = m"
    and "m ''search'' = Some v" and "m ''sort_by'' = Some w"
    and "''search'' \<noteq> pageParamOf p" and "''sort_by'' \<noteq> pageParamOf p"
  shows "\<forall>url \<in> set (itemURLs (paginationItems info p kvs)).
           hasPair url ''search'' v \<and> hasPair url ''sort_by'' w"
proof
  fix url
  assume "url \<in> set (itemURLs (paginationItems info p kvs))"
  then obtain k page
    where url: "url = generateURL (Pagination.BaseURL p) (pageParamOf p) (kvs k) page"
    using itemURLs_paginationItems by blast
  from assms(1-3) have "map_of (kvs k) ''search'' = Some v" and "map_of (kvs k) ''sort_by'' = Some w"
    by simp_all
  then have "(''search'', v) \<in> set (kvs k)" and "(''sort_by'', w) \<in> set (kvs k)"
    by (auto dest: map_of_SomeD)
  with assms(4,5) show "hasPair url ''search'' v \<and> hasPair url ''sort_by'' w"
    unfolding url by (simp add: hasPair_generateURL)
qed

theorem generatePaginationHTML_preserves_witness:
  "itemURLs (paginationItems firstOfTwelve thirdOfFive
      (\<lambda>k. if even k then [(''search'', ''bob''), (''page'', ''1''), (''sort_by'', ''name'')]
           else [(''sort_by'', ''name''), (''search'', ''bob''), (''page'', ''1'')]))
     = [''/users?page=2&search=bob&sort_by=name'', ''/users?page=3&sort_by=name&search=bob'',
        ''/users?page=4&search=bob&sort_by=name'', ''/users?page=5&sort_by=name&search=bob'',
        ''/users?page=2&search=bob&sort_by=name'']
   \<and> list_all (\<lambda>url. hasPair url ''search'' ''bob'' \<and> hasPair url ''sort_by'' ''name'')
        (itemURLs (paginationItems firstOfTwelve thirdOfFive
           (\<lambda>k. if even k then [(''search'', ''bob''), (''page'', ''1''), (''sort_by'', ''name'')]
                else [(''sort_by'', ''name''), (''search'', ''bob''), (''page'', ''1'')])))"
proof -
  let ?kvs = "\<lambda>k::nat. if even k
      then [(''search'', ''bob''), (''page'', ''1''), (''sort_by'', ''name'')]
      else [(''sort_by'', ''name''), (''search'', ''bob''), (''page'', ''1'')]"
  let ?m = "[''search'' \<mapsto> ''bob'', ''page'' \<mapsto> ''1'', ''sort_by'' \<mapsto> ''name'']"
  have h: "\<forall>k. map_of (?kvs k) = ?m"
    "?m ''search'' = Some ''bob''" "?m ''sort_by'' = Some ''name''"
    "''search'' \<noteq> pageParamOf thirdOfFive" "''sort_by'' \<noteq> pageParamOf thirdOfFive"
    by (auto simp: pageParamOf_def thirdOfFive_def fun_eq_iff)
  have urls: "itemURLs (paginationItems firstOfTwelve thirdOfFive ?kvs)
     = [''/users?page=2&search=bob&sort_by=name'', ''/users?page=3&sort_by=name&search=bob'',
        ''/users?page=4&search=bob&sort_by=name'', ''/users?page=5&sort_by=name&search=bob'',
        ''/users?page=2&search=bob&sort_by=name'']"
    by code_simp
  from generatePaginationHTML_preserves [OF h, of firstOfTwelve]
  have "list_all (\<lambda>url. hasPair url ''search'' ''bob'' \<and> hasPair url ''sort_by'' ''name'')
          (itemURLs (paginationItems firstOfTwelve thirdOfFive ?kvs))"
    by (simp only: list_all_iff)
  with urls show ?thesis
    by (rule conjI)
qed

section \<open>Properties of the row source\<close>

lemma jsonHeader_extract: "extractHeadersFromStruct structType = map jsonHeader structType"
proof -
  have "strings_Split tag (CHR '','') ! 0 = takeWhile (\<lambda>c. c \<noteq> CHR '','') tag" for tag
    using strings_Split_hd [of tag "CHR '',''"] strings_Split_nonempty [of tag "CHR '',''"]
    by (simp add: hd_conv_nth)
  then show ?thesis
    by (auto simp: extractHeadersFromStruct_def jsonHeader_def Tag_Get_def Let_def
          split: option.splits)
qed

lemma rowsLoop_structsOnly: "structsOnly elems \<Longrightarrow> rowsLoop elems = Some (map cells elems)"
proof (induction elems)
  case Nil
  then show ?case by simp
next
  case (Cons elem elems)
  then have "structRow elem = Some (cells elem)" and "structsOnly elems"
    by (auto simp: structsOnly_def structRow_def cells_def split: Value.splits)
  with Cons.IH show ?case
    by simp
qed

text \<open>
  C7 (as amended). When \<open>Data\<close> is a non-empty slice of structs (directly or behind a
  pointer, with exported fields), the rows are the field contents in declaration order, and
  the headers are those derived from the fields of the first element, the name in the json
  tag or else the field name, in declaration order, unless explicit headers are supplied:
  a non-empty \<open>Headers\<close> list overrides the derived headers. When \<open>Data\<close> is nil the
  explicit headers and rows are used as they are.
\<close>

theorem RenderHTML_source_headers:
  assumes "deref data = SliceValue (firstElem # elems)"
    and "deref firstElem = StructValue flds"
    and "structsOnly (firstElem # elems)"
  shows "RenderHTML_source Headers Rows (Some data) =
           Inr (if Headers = [] then map jsonHeader (map fst flds) else Headers,
                map cells (firstElem # elems))
       \<and> RenderHTML_source Headers Rows None = Inr (Headers, Rows)"
proof -
  from assms have "convertStructSliceToRows data =
      Inr (map jsonHeader (map fst flds), map cells (firstElem # elems))"
    by (simp add: convertStructSliceToRows_def rowsLoop_structsOnly jsonHeader_extract
          del: rowsLoop.simps)
  then show ?thesis
    by (simp add: RenderHTML_source_def)
qed

theorem RenderHTML_source_headers_witness:
  "RenderHTML_source [] [] (Some (SliceValue [userStruct, userStruct]))
     = Inr ([''name'', ''Age''], [[''Ann'', ''41''], [''Ann'', ''41'']])
   \<and> RenderHTML_source [''Who'', ''Years''] [] (Some (SliceValue [userStruct, userStruct]))
     = Inr ([''Who'', ''Years''], [[''Ann'', ''41''], [''Ann'', ''41'']])"
proof -
  have h: "deref (SliceValue [userStruct, userStruct]) = SliceValue (userStruct # [userStruct])"
    "deref userStruct = StructValue
       [(\<lparr>Name = ''FullName'', Tag = [(''json'', ''name,omitempty'')], Exported = True\<rparr>, ''Ann''),
        (\<lparr>Name = ''Age'', Tag = [], Exported = True\<rparr>, ''41'')]"
    "structsOnly (userStruct # [userStruct])"
    by (simp_all add: deref_def userStruct_def structsOnly_def)
  have c: "cells userStruct = [''Ann'', ''41'']"
    by (simp add: cells_def deref_def userStruct_def)
  from RenderHTML_source_headers [OF h, of "[]" "[]"]
    RenderHTML_source_headers [OF h, of "[''Who'', ''Years'']" "[]"]
  show ?thesis
    by (simp add: c jsonHeader_def)
qed

text \<open>
  C7 (as stated) fails when both are supplied: with a slice of user records and the explicit
  headers \<open>Who\<close> and \<open>Years\<close>, the headers rendered are the explicit ones, not \<open>name\<close> and
  \<open>Age\<close> from the field metadata.
\<close>

theorem RenderHTML_source_headers_counterexample:
  "RenderHTML_source [''Who'', ''Years''] [] (Some (SliceValue [userStruct]))
     = Inr ([''Who'', ''Years''], [[''Ann'', ''41'']])
   \<and> extractHeadersFromStruct
        [\<lparr>Name = ''FullName'', Tag = [(''json'', ''name,omitempty'')], Exported = True\<rparr>,
         \<lparr>Name = ''Age'', Tag = [], Exported = True\<rparr>] = [''name'', ''Age'']"
  by code_simp

end
